theory Spec2Isabelle
  imports Complex_Main
begin

section \<open>Monte Carlo option pricing and its parallel dispatch\<close>

text \<open>
  The development embeds two pieces of the option-pricing notebook: the function
  \<open>price_options\<close> and the top-level cells that fan it out over a grid of strikes and
  volatilities through a load-balanced view and assemble the result array.

  Python floats and NumPy \<open>float64\<close> values are modelled as real numbers, so rounding,
  overflow and infinities are not represented. The one non-number that the code can
  produce without raising, the NaN that \<open>np.mean\<close> returns for an empty array, is kept
  as a value of its own.
\<close>

subsection \<open>Values and errors\<close>

datatype error =
    ZeroDivisionError
  | ValueError
  | IndexError
  | EngineError
  | RemoteError error

datatype npfloat = Fin real | NaN

text \<open>The tuple \<open>(euro_call, euro_put, asian_call, asian_put)\<close> that \<open>price_options\<close> returns.\<close>

type_synonym quote = "npfloat \<times> npfloat \<times> npfloat \<times> npfloat"



definition acall :: "quote \<Rightarrow> npfloat" where
  "acall q = fst (snd (snd q))"

definition aput :: "quote \<Rightarrow> npfloat" where
  "aput q = snd (snd (snd q))"

subsection \<open>The NumPy operations used by \<open>price_options\<close>\<close>

text \<open>
  The ambient generator \<open>np.random\<close> is a stream of draws still to be handed out;
  \<open>np.random.standard_normal(n)\<close> hands out the next \<open>n\<close> and advances the stream.
\<close>

type_synonym rng = "nat \<Rightarrow> real"

definition standard_normal :: "nat \<Rightarrow> rng \<Rightarrow> real list \<times> rng" where
  "standard_normal n g = (map g [0..<n], \<lambda>k. g (k + n))"

definition ones :: "nat \<Rightarrow> real list" where
  "ones n = replicate n 1"

definition zeros :: "nat \<Rightarrow> real list" where
  "zeros n = replicate n 0"

definition maximum :: "real list \<Rightarrow> real list \<Rightarrow> real list" where
  "maximum xs ys = map2 max xs ys"

text \<open>\<open>np.mean\<close> of an empty array is NaN (with a warning), not an exception.\<close>

definition mean :: "real list \<Rightarrow> npfloat" where
  "mean xs = (if xs = [] then NaN else Fin (sum_list xs / real (length xs)))"

text \<open>A Python float times the \<open>float64\<close> that \<open>np.mean\<close> returned.\<close>

fun times_np :: "real \<Rightarrow> npfloat \<Rightarrow> npfloat" where
  "times_np c (Fin x) = Fin (c * x)"
| "times_np c NaN = NaN"

subsection \<open>\<open>price_options\<close>\<close>

text \<open>
  The state of the \<open>for j in range(days)\<close> loop: \<open>stock_price\<close>, \<open>stock_price_sum\<close> and
  the generator.
\<close>

type_synonym loop_state = "real list \<times> real list \<times> rng"

definition loop_body :: "real \<Rightarrow> real \<Rightarrow> nat \<Rightarrow> loop_state \<Rightarrow> loop_state" where
  "loop_body const1 const2 paths st =
     (case st of (stock_price, stock_price_sum, g) \<Rightarrow>
        (case standard_normal paths g of (z, g') \<Rightarrow>
           let growth_factor = map (\<lambda>x. const1 * exp (const2 * x)) z;
               stock_price' = map2 (*) stock_price growth_factor;
               stock_price_sum' = map2 (+) stock_price_sum stock_price'
           in (stock_price', stock_price_sum', g')))"

text \<open>
  The first part of the body of \<open>price_options\<close>, up to the end of the loop. It raises
  where Python does: \<open>1.0/days\<close> on \<open>days = 0\<close>, \<open>math.sqrt(h)\<close> on a negative \<open>h\<close>, and
  \<open>np.ones(paths)\<close> on a negative \<open>paths\<close>. It returns \<open>h\<close> with the loop's final state.
\<close>

definition simulate ::
  "real \<Rightarrow> real \<Rightarrow> real \<Rightarrow> int \<Rightarrow> int \<Rightarrow> rng \<Rightarrow> error + real \<times> loop_state" where
  "simulate S sigma r days paths g =
     (if days = 0 then Inl ZeroDivisionError
      else
        let h = 1 / real_of_int days in
        if h < 0 then Inl ValueError
        else
          let const1 = exp ((r - 0.5 * sigma\<^sup>2) * h);
              const2 = sigma * sqrt h
          in
          if paths < 0 then Inl ValueError
          else
            let stock_price = map (\<lambda>x. S * x) (ones (nat paths));
                stock_price_sum = zeros (nat paths)
            in Inr (h, (loop_body const1 const2 (nat paths) ^^ nat days)
                         (stock_price, stock_price_sum, g)))"

text \<open>The discount factor, \<open>r_factor = exp(-r*h*days)\<close>.\<close>

definition r_factor :: "real \<Rightarrow> real \<Rightarrow> int \<Rightarrow> real" where
  "r_factor r h days = exp (- r * h * real_of_int days)"

definition price_options ::
  "real \<Rightarrow> real \<Rightarrow> real \<Rightarrow> real \<Rightarrow> int \<Rightarrow> int \<Rightarrow> rng \<Rightarrow> error + quote" where
  "price_options S K sigma r days paths g =
     (case simulate S sigma r days paths g of
        Inl e \<Rightarrow> Inl e
      | Inr (h, stock_price, stock_price_sum, g') \<Rightarrow>
          let stock_price_avg = map (\<lambda>x. x / real_of_int days) stock_price_sum;
              zeros = zeros (nat paths);
              r_factor = r_factor r h days;
              euro_put = times_np r_factor (mean (maximum zeros (map (\<lambda>x. K - x) stock_price)));
              asian_put = times_np r_factor (mean (maximum zeros (map (\<lambda>x. K - x) stock_price_avg)));
              euro_call = times_np r_factor (mean (maximum zeros (map (\<lambda>x. x - K) stock_price)));
              asian_call = times_np r_factor (mean (maximum zeros (map (\<lambda>x. x - K) stock_price_avg)))
          in Inr (euro_call, euro_put, asian_call, asian_put))"

text \<open>The preconditions the contract of \<open>price_options\<close> lists.\<close>

definition valid :: "real \<Rightarrow> real \<Rightarrow> real \<Rightarrow> int \<Rightarrow> int \<Rightarrow> bool" where
  "valid S K sigma days paths \<longleftrightarrow> 1 \<le> days \<and> 1 \<le> paths \<and> 0 \<le> sigma \<and> 0 < S \<and> 0 < K"

subsection \<open>The contract's description of the simulation\<close>

text \<open>
  These definitions follow the wording of the contract, not the code. The growth factor
  has drift \<open>(r - \<sigma>\<^sup>2/2) h\<close> and diffusion \<open>\<sigma> \<surd>h Z\<close>.
\<close>

definition spec_growth :: "real \<Rightarrow> real \<Rightarrow> real \<Rightarrow> real \<Rightarrow> real" where
  "spec_growth sigma r h z = exp ((r - sigma\<^sup>2 / 2) * h + sigma * sqrt h * z)"

text \<open>
  The price of path \<open>i\<close> after \<open>n\<close> steps: it starts at \<open>S\<close>, and step \<open>n\<close> multiplies it
  by the growth factor of a draw of its own; with \<open>paths\<close> draws taken per step, that is
  draw number \<open>n * paths + i\<close> of the stream.
\<close>

fun spec_price :: "real \<Rightarrow> real \<Rightarrow> real \<Rightarrow> real \<Rightarrow> nat \<Rightarrow> rng \<Rightarrow> nat \<Rightarrow> nat \<Rightarrow> real" where
  "spec_price S sigma r h paths Z i 0 = S"
| "spec_price S sigma r h paths Z i (Suc n) =
     spec_price S sigma r h paths Z i n * spec_growth sigma r h (Z (n * paths + i))"

text \<open>The running sum of the prices of path \<open>i\<close> after each of the first \<open>n\<close> steps.\<close>

fun spec_sum :: "real \<Rightarrow> real \<Rightarrow> real \<Rightarrow> real \<Rightarrow> nat \<Rightarrow> rng \<Rightarrow> nat \<Rightarrow> nat \<Rightarrow> real" where
  "spec_sum S sigma r h paths Z i 0 = 0"
| "spec_sum S sigma r h paths Z i (Suc n) =
     spec_sum S sigma r h paths Z i n + spec_price S sigma r h paths Z i (Suc n)"

text \<open>A payoff \<open>f i\<close> of each path \<open>i < p\<close>, averaged across the paths and multiplied by \<open>c\<close>.\<close>

definition payoff_mean :: "real \<Rightarrow> nat \<Rightarrow> (nat \<Rightarrow> real) \<Rightarrow> real" where
  "payoff_mean c p f = c * (sum_list (map f [0..<p]) / real p)"


section \<open>The dispatch cells\<close>

subsection \<open>The task executor\<close>

text \<open>The arguments \<open>(S, K, sigma, r, days, paths)\<close> of one call of \<open>price_options\<close>.\<close>

type_synonym task = "real \<times> real \<times> real \<times> real \<times> int \<times> int"

type_synonym handle = nat

text \<open>
  Modelled from the spec: the task executor (the client and load-balanced view of
  \<open>IPython.parallel\<close>) is an external collaborator and none of its code is in the
  repository. Its interface is a non-blocking \<open>submit(fn, *args) -> handle\<close>, a blocking
  barrier \<open>wait_all(handles)\<close> and \<open>handle.get() -> result | raises\<close>, and nothing else
  is assumed about how it schedules work.

  The executor keeps the submitted tasks in submission order, a handle being a task's
  position, and the outcome of every task that has completed.
\<close>

record executor =
  submitted :: "task list"
  finished :: "handle \<rightharpoonup> error + quote"

definition new_view :: executor where
  "new_view = \<lparr>submitted = [], finished = Map.empty\<rparr>"

text \<open>\<open>view.apply_async(price_options, ...)\<close>: queue the task and return its handle at once.\<close>

definition apply_async :: "task \<Rightarrow> executor \<Rightarrow> handle \<times> executor" where
  "apply_async t view = (length (submitted view), view\<lparr>submitted := submitted view @ [t]\<rparr>)"

text \<open>
  What the executor decides by itself is a schedule: the order in which tasks complete
  and, for each, what happened on the engine that ran it. Either the engine failed the
  unit of work with an exception, or it ran \<open>price_options\<close> on the task's arguments with
  its own random generator in some state.
\<close>

type_synonym event = "handle \<times> (error + rng)"

definition run_task :: "task \<Rightarrow> error + rng \<Rightarrow> error + quote" where
  "run_task t engine =
     (case engine of
        Inl e \<Rightarrow> Inl e
      | Inr g \<Rightarrow> (case t of (S, K, sigma, r, days, paths) \<Rightarrow> price_options S K sigma r days paths g))"

definition complete :: "event \<Rightarrow> executor \<Rightarrow> executor" where
  "complete ev view =
     (case ev of (h, engine) \<Rightarrow>
        if h < length (submitted view)
        then view\<lparr>finished := (finished view)(h \<mapsto> run_task (submitted view ! h) engine)\<rparr>
        else view)"

text \<open>
  \<open>rc.wait(async_results)\<close>: the tasks complete as the schedule says, and the call returns
  once every handle it was given has completed. \<open>None\<close> is a barrier that never returns,
  because a task it waits for never completes.
\<close>

definition wait :: "event list \<Rightarrow> handle list \<Rightarrow> executor \<Rightarrow> executor option" where
  "wait schedule handles view =
     (let view' = fold complete schedule view
      in if list_all (\<lambda>h. finished view' h \<noteq> None) handles then Some view' else None)"

text \<open>
  \<open>ar.get()\<close>: the task's result, or \<open>RemoteError\<close> wrapping what the task raised.
  \<open>None\<close> is a call that blocks forever on a task that never completes.
\<close>

definition get :: "executor \<Rightarrow> handle \<Rightarrow> (error + quote) option" where
  "get view ar =
     (case finished view ar of
        None \<Rightarrow> None
      | Some (Inl e) \<Rightarrow> Some (Inl (RemoteError e))
      | Some (Inr q) \<Rightarrow> Some (Inr q))"

subsection \<open>The cells\<close>

text \<open>
  The submission cell:
  \<^verbatim>\<open>async_results = []\<close>
  \<^verbatim>\<open>for strike in strike_vals:\<close>
  \<^verbatim>\<open>    for sigma in sigma_vals:\<close>
  \<^verbatim>\<open>        ar = view.apply_async(price_options, price, strike, sigma, rate, days, paths)\<close>
  \<^verbatim>\<open>        async_results.append(ar)\<close>
\<close>

definition submit_tasks ::
  "real \<Rightarrow> real \<Rightarrow> int \<Rightarrow> int \<Rightarrow> real list \<Rightarrow> real list \<Rightarrow> executor \<Rightarrow> handle list \<times> executor" where
  "submit_tasks price rate days paths strike_vals sigma_vals view =
     fold (\<lambda>strike. fold (\<lambda>sigma st.
             case st of (async_results, view) \<Rightarrow>
               (case apply_async (price, strike, sigma, rate, days, paths) view of
                  (ar, view') \<Rightarrow> (async_results @ [ar], view')))
           sigma_vals)
       strike_vals ([], view)"

text \<open>\<open>results = [ar.get() for ar in async_results]\<close>: the first \<open>get\<close> that raises ends it.\<close>

fun get_all :: "executor \<Rightarrow> handle list \<Rightarrow> (error + quote list) option" where
  "get_all view [] = Some (Inr [])"
| "get_all view (ar # ars) =
     (case get view ar of
        None \<Rightarrow> None
      | Some (Inl e) \<Rightarrow> Some (Inl e)
      | Some (Inr q) \<Rightarrow>
          (case get_all view ars of
             None \<Rightarrow> None
           | Some (Inl e) \<Rightarrow> Some (Inl e)
           | Some (Inr qs) \<Rightarrow> Some (Inr (q # qs))))"

text \<open>The cells from the submission to \<open>results\<close>, on a fresh view.\<close>

definition collect ::
  "real \<Rightarrow> real \<Rightarrow> int \<Rightarrow> int \<Rightarrow> real list \<Rightarrow> real list \<Rightarrow> event list
     \<Rightarrow> (error + quote list) option" where
  "collect price rate days paths strike_vals sigma_vals schedule =
     (case submit_tasks price rate days paths strike_vals sigma_vals new_view of
        (async_results, view) \<Rightarrow>
          (case wait schedule async_results view of
             None \<Rightarrow> None
           | Some view' \<Rightarrow> get_all view' async_results))"

text \<open>
  The structured array \<open>prices\<close>: its cells in C order, a cell that was never assigned
  being \<open>None\<close>, and its shape once it is two-dimensional.
\<close>

record ndarray =
  shape :: "nat \<times> nat"
  flat :: "quote option list"

text \<open>\<open>np.empty(n, dtype=...)\<close>: \<open>n\<close> unassigned cells; a negative \<open>n\<close> raises.\<close>

definition empty :: "int \<Rightarrow> error + quote option list" where
  "empty n = (if n < 0 then Inl ValueError else Inr (replicate (nat n) None))"

text \<open>\<open>prices[i] = tuple(price)\<close>: an index past the end raises.\<close>

definition setitem :: "nat \<Rightarrow> quote \<Rightarrow> quote option list \<Rightarrow> error + quote option list" where
  "setitem i price prices =
     (if i < length prices then Inr (prices[i := Some price]) else Inl IndexError)"

text \<open>\<open>for i, price in enumerate(results): prices[i] = tuple(price)\<close>\<close>

definition assemble :: "quote option list \<Rightarrow> quote list \<Rightarrow> error + quote option list" where
  "assemble prices results =
     fold (\<lambda>ip acc. case ip of (i, price) \<Rightarrow>
             (case acc of Inl e \<Rightarrow> Inl e | Inr prices' \<Rightarrow> setitem i price prices'))
       (enumerate 0 results) (Inr prices)"

text \<open>
  \<open>prices.shape = (n_strikes, n_sigmas)\<close>: the cells stay where they are; a shape that
  does not hold exactly the cells of the array raises.
\<close>

definition set_shape :: "quote option list \<Rightarrow> int \<Rightarrow> int \<Rightarrow> error + ndarray" where
  "set_shape prices n_strikes n_sigmas =
     (if n_strikes < 0 \<or> n_sigmas < 0 \<or> nat n_strikes * nat n_sigmas \<noteq> length prices
      then Inl ValueError
      else Inr \<lparr>shape = (nat n_strikes, nat n_sigmas), flat = prices\<rparr>)"

text \<open>\<open>prices[i, j]\<close> of a two-dimensional array.\<close>

definition item :: "ndarray \<Rightarrow> nat \<Rightarrow> nat \<Rightarrow> error + quote option" where
  "item a i j =
     (if i < fst (shape a) \<and> j < snd (shape a) then Inr (flat a ! (i * snd (shape a) + j))
      else Inl IndexError)"

text \<open>
  All the cells in order, from the submission to the reshaped array. An exception in a
  cell ends the run with that exception.
\<close>

definition run_grid ::
  "real \<Rightarrow> real \<Rightarrow> int \<Rightarrow> int \<Rightarrow> int \<Rightarrow> int \<Rightarrow> real list \<Rightarrow> real list \<Rightarrow> event list
     \<Rightarrow> (error + ndarray) option" where
  "run_grid price rate days paths n_strikes n_sigmas strike_vals sigma_vals schedule =
     (case collect price rate days paths strike_vals sigma_vals schedule of
        None \<Rightarrow> None
      | Some (Inl e) \<Rightarrow> Some (Inl e)
      | Some (Inr results) \<Rightarrow>
          Some (case empty (n_strikes * n_sigmas) of
                  Inl e \<Rightarrow> Inl e
                | Inr prices \<Rightarrow>
                    (case assemble prices results of
                       Inl e \<Rightarrow> Inl e
                     | Inr prices' \<Rightarrow> set_shape prices' n_strikes n_sigmas)))"

text \<open>The tasks of a grid, strike by strike and, for each strike, volatility by volatility.\<close>

definition grid_tasks :: "real \<Rightarrow> real \<Rightarrow> int \<Rightarrow> int \<Rightarrow> real list \<Rightarrow> real list \<Rightarrow> task list" where
  "grid_tasks price rate days paths strike_vals sigma_vals =
     concat (map (\<lambda>strike. map (\<lambda>sigma. (price, strike, sigma, rate, days, paths)) sigma_vals)
               strike_vals)"

section \<open>Properties of \<open>price_options\<close>\<close>

subsection \<open>The loop in closed form\<close>

lemma map2_map_same: "map2 f (map a xs) (map b xs) = map (\<lambda>x. f (a x) (b x)) xs"
  by (induction xs) auto

lemma growth_factor_eq:
  "exp ((r - 0.5 * sigma\<^sup>2) * h) * exp (sigma * sqrt h * z) = spec_growth sigma r h z"
  by (simp add: spec_growth_def exp_add)

lemma loop_body_closed:
  "loop_body (exp ((r - 0.5 * sigma\<^sup>2) * h)) (sigma * sqrt h) p
     (map (\<lambda>i. spec_price S sigma r h p Z i n) [0..<p],
      map (\<lambda>i. spec_sum S sigma r h p Z i n) [0..<p],
      \<lambda>k. Z (k + n * p)) =
   (map (\<lambda>i. spec_price S sigma r h p Z i (Suc n)) [0..<p],
    map (\<lambda>i. spec_sum S sigma r h p Z i (Suc n)) [0..<p],
    \<lambda>k. Z (k + Suc n * p))"
proof -
  have gf: "map (\<lambda>x. exp ((r - 0.5 * sigma\<^sup>2) * h) * exp (sigma * sqrt h * x))
              (map (\<lambda>k. Z (k + n * p)) [0..<p]) =
            map (\<lambda>i. spec_growth sigma r h (Z (n * p + i))) [0..<p]"
    by (simp only: map_map o_def growth_factor_eq add.commute)
  have sh: "(\<lambda>k. Z (k + p + n * p)) = (\<lambda>k. Z (k + Suc n * p))"
    by (simp add: add.assoc)
  show ?thesis
    unfolding loop_body_def standard_normal_def prod.case Let_def gf map2_map_same sh
    by simp
qed

lemma loop_closed:
  "(loop_body (exp ((r - 0.5 * sigma\<^sup>2) * h)) (sigma * sqrt h) p ^^ n)
     (map (\<lambda>x. S * x) (ones p), zeros p, Z) =
   (map (\<lambda>i. spec_price S sigma r h p Z i n) [0..<p],
    map (\<lambda>i. spec_sum S sigma r h p Z i n) [0..<p],
    \<lambda>k. Z (k + n * p))"
proof (induction n)
  case 0
  show ?case by (simp add: ones_def zeros_def map_replicate_const)
next
  case (Suc n)
  show ?case by (simp only: funpow.simps o_apply Suc loop_body_closed)
qed

lemma simulate_closed:
  assumes "0 < days" "0 \<le> paths"
  shows "simulate S sigma r days paths Z =
     Inr (1 / real_of_int days,
          map (\<lambda>i. spec_price S sigma r (1 / real_of_int days) (nat paths) Z i (nat days))
            [0..<nat paths],
          map (\<lambda>i. spec_sum S sigma r (1 / real_of_int days) (nat paths) Z i (nat days))
            [0..<nat paths],
          \<lambda>k. Z (k + nat days * nat paths))"
proof -
  have h: "\<not> 1 / real_of_int days < 0" using assms(1) by simp
  show ?thesis
    unfolding simulate_def Let_def loop_closed
    using assms h by simp
qed

lemma draw_index_inj:
  fixes p :: nat
  assumes "i < p" "i' < p" "j * p + i = j' * p + i'"
  shows "i = i' \<and> j = j'"
proof -
  have "(j * p + i) mod p = (j' * p + i') mod p" using assms(3) by simp
  then have i: "i = i'" using assms(1,2) by simp
  then have "j * p = j' * p" using assms(3) by simp
  then have "j = j'" using assms(1) by simp
  with i show ?thesis by simp
qed

text \<open>
  C1. For valid parameters the first part of \<open>price_options\<close> returns the step size
  \<open>h = 1/days\<close> and two vectors of \<open>paths\<close> entries: entry \<open>i\<close> of \<open>stock_price\<close> is the
  price that starts at \<open>S\<close> and is multiplied at every one of the \<open>days\<close> steps by
  \<open>exp((r - \<sigma>\<^sup>2/2) h + \<sigma> \<surd>h Z)\<close>, and entry \<open>i\<close> of \<open>stock_price_sum\<close> is the sum
  of that path's prices after every step. The draw \<open>Z\<close> of path \<open>i\<close> at step \<open>j\<close> is draw
  number \<open>j * paths + i\<close> of the generator, and no two (step, path) pairs share a draw.
  That the draws are standard normal and independent is the generator's contract.
\<close>

theorem simulate_evolves_paths:
  assumes "valid S K sigma days paths"
  shows "\<exists>stock_price stock_price_sum g'.
     simulate S sigma r days paths Z = Inr (1 / real_of_int days, stock_price, stock_price_sum, g') \<and>
     length stock_price = nat paths \<and> length stock_price_sum = nat paths \<and>
     (\<forall>i<nat paths.
        stock_price ! i = spec_price S sigma r (1 / real_of_int days) (nat paths) Z i (nat days) \<and>
        stock_price_sum ! i = spec_sum S sigma r (1 / real_of_int days) (nat paths) Z i (nat days)) \<and>
     (\<forall>i i' j j'. i < nat paths \<and> i' < nat paths \<and> j * nat paths + i = j' * nat paths + i'
        \<longrightarrow> i = i' \<and> j = j')"
proof -
  have d: "0 < days" "0 \<le> paths" using assms by (simp_all add: valid_def)
  have inj: "\<forall>i i' j j'. i < nat paths \<and> i' < nat paths \<and> j * nat paths + i = j' * nat paths + i'
        \<longrightarrow> i = i' \<and> j = j'"
  proof (intro allI impI)
    fix i i' j j'
    assume a: "i < nat paths \<and> i' < nat paths \<and> j * nat paths + i = j' * nat paths + i'"
    show "i = i' \<and> j = j'"
      by (rule draw_index_inj [of i "nat paths" i' j j']) (simp_all add: a)
  qed
  have "length (map (\<lambda>i. spec_price S sigma r (1 / real_of_int days) (nat paths) Z i (nat days))
            [0..<nat paths]) = nat paths"
       "length (map (\<lambda>i. spec_sum S sigma r (1 / real_of_int days) (nat paths) Z i (nat days))
            [0..<nat paths]) = nat paths"
       "\<forall>i<nat paths.
          map (\<lambda>i. spec_price S sigma r (1 / real_of_int days) (nat paths) Z i (nat days))
            [0..<nat paths] ! i
            = spec_price S sigma r (1 / real_of_int days) (nat paths) Z i (nat days) \<and>
          map (\<lambda>i. spec_sum S sigma r (1 / real_of_int days) (nat paths) Z i (nat days))
            [0..<nat paths] ! i
            = spec_sum S sigma r (1 / real_of_int days) (nat paths) Z i (nat days)"
    by simp_all
  with simulate_closed [OF d, of S sigma r Z] inj show ?thesis
    by blast
qed

theorem simulate_evolves_paths_witness:
  "valid 100 100 0 1 1 \<and>
   simulate 100 0 0 1 1 (\<lambda>_. 0) = Inr (1, [100], [100], \<lambda>_. 0)"
  using simulate_evolves_paths [of 100 100 0 1 1 0 "\<lambda>_. 0"]
  by (simp add: valid_def simulate_def loop_body_def standard_normal_def ones_def zeros_def
      Let_def)

subsection \<open>The four estimates in closed form\<close>

lemma maximum_zeros: "maximum (zeros (length xs)) xs = map (max 0) xs"
  by (induction xs) (simp_all add: maximum_def zeros_def)

lemma maximum_zeros_map: "maximum (zeros p) (map f [0..<p]) = map (\<lambda>i. max 0 (f i)) [0..<p]"
  using maximum_zeros [of "map f [0..<p]"] by (simp add: o_def)

lemma discounted_mean:
  "0 < p \<Longrightarrow> times_np c (mean (maximum (zeros p) (map f [0..<p]))) =
     Fin (payoff_mean c p (\<lambda>i. max 0 (f i)))"
  by (simp add: maximum_zeros_map mean_def payoff_mean_def)

lemma price_options_closed:
  assumes "0 < days" "0 < paths"
  shows "price_options S K sigma r days paths Z =
     Inr (Fin (payoff_mean (r_factor r (1 / real_of_int days) days) (nat paths)
            (\<lambda>i. max 0 (spec_price S sigma r (1 / real_of_int days) (nat paths) Z i (nat days) - K))),
          Fin (payoff_mean (r_factor r (1 / real_of_int days) days) (nat paths)
            (\<lambda>i. max 0 (K - spec_price S sigma r (1 / real_of_int days) (nat paths) Z i (nat days)))),
          Fin (payoff_mean (r_factor r (1 / real_of_int days) days) (nat paths)
            (\<lambda>i. max 0 (spec_sum S sigma r (1 / real_of_int days) (nat paths) Z i (nat days)
                           / real_of_int days - K))),
          Fin (payoff_mean (r_factor r (1 / real_of_int days) days) (nat paths)
            (\<lambda>i. max 0 (K - spec_sum S sigma r (1 / real_of_int days) (nat paths) Z i (nat days)
                           / real_of_int days))))"
proof -
  have p: "0 < nat paths" "0 \<le> paths" using assms(2) by simp_all
  show ?thesis
    unfolding price_options_def simulate_closed [OF assms(1) p(2)] sum.case prod.case Let_def
      map_map o_def discounted_mean [OF p(1)]
    by (rule refl)
qed

lemma r_factor_nonneg: "0 \<le> r_factor r h days"
  by (simp add: r_factor_def)


lemma payoff_mean_mono:
  "0 \<le> c \<Longrightarrow> (\<And>i. f i \<le> f' i) \<Longrightarrow> payoff_mean c p f \<le> payoff_mean c p f'"
  unfolding payoff_mean_def
  by (intro mult_left_mono divide_right_mono sum_list_mono) simp_all



text \<open>
  C7. With \<open>S\<close>, \<open>\<sigma>\<close>, \<open>r\<close>, \<open>days\<close>, \<open>paths\<close> and the draws fixed, and strikes
  \<open>K1 \<le> K2\<close>, both calls are no dearer at \<open>K2\<close> than at \<open>K1\<close> and both puts no cheaper.
\<close>

theorem strike_monotone:
  assumes "valid S K1 sigma days paths" "valid S K2 sigma days paths" "K1 \<le> K2"
  shows "\<exists>ec1 ep1 ac1 ap1 ec2 ep2 ac2 ap2.
           price_options S K1 sigma r days paths Z = Inr (Fin ec1, Fin ep1, Fin ac1, Fin ap1) \<and>
           price_options S K2 sigma r days paths Z = Inr (Fin ec2, Fin ep2, Fin ac2, Fin ap2) \<and>
           ec2 \<le> ec1 \<and> ac2 \<le> ac1 \<and> ep1 \<le> ep2 \<and> ap1 \<le> ap2"
proof -
  have d: "0 < days" "0 < paths" using assms(1) by (simp_all add: valid_def)
  note q1 = price_options_closed [OF d, of S K1 sigma r Z]
  note q2 = price_options_closed [OF d, of S K2 sigma r Z]
  note mo = payoff_mean_mono [OF r_factor_nonneg, of _ _ r "1 / real_of_int days" days "nat paths"]
  let ?P = "\<lambda>i. spec_price S sigma r (1 / real_of_int days) (nat paths) Z i (nat days)"
  let ?A = "\<lambda>i. spec_sum S sigma r (1 / real_of_int days) (nat paths) Z i (nat days)
                 / real_of_int days"
  let ?c = "r_factor r (1 / real_of_int days) days"
  have "payoff_mean ?c (nat paths) (\<lambda>i. max 0 (?P i - K2))
          \<le> payoff_mean ?c (nat paths) (\<lambda>i. max 0 (?P i - K1))"
       "payoff_mean ?c (nat paths) (\<lambda>i. max 0 (?A i - K2))
          \<le> payoff_mean ?c (nat paths) (\<lambda>i. max 0 (?A i - K1))"
       "payoff_mean ?c (nat paths) (\<lambda>i. max 0 (K1 - ?P i))
          \<le> payoff_mean ?c (nat paths) (\<lambda>i. max 0 (K2 - ?P i))"
       "payoff_mean ?c (nat paths) (\<lambda>i. max 0 (K1 - ?A i))
          \<le> payoff_mean ?c (nat paths) (\<lambda>i. max 0 (K2 - ?A i))"
    using assms(3) by (auto intro!: mo)
  with q1 q2 show ?thesis by blast
qed

theorem strike_monotone_witness:
  "valid 100 90 0 1 1 \<and> valid 100 110 0 1 1 \<and> (90::real) \<le> 110 \<and>
   price_options 100 90 0 0 1 1 (\<lambda>_. 0) = Inr (Fin 10, Fin 0, Fin 10, Fin 0) \<and>
   price_options 100 110 0 0 1 1 (\<lambda>_. 0) = Inr (Fin 0, Fin 10, Fin 0, Fin 10)"
  using strike_monotone [of 100 90 0 1 1 110 0 "\<lambda>_. 0"]
  by (simp add: valid_def price_options_def simulate_def loop_body_def standard_normal_def
      ones_def zeros_def maximum_def mean_def r_factor_def Let_def)

subsection \<open>Which inputs raise\<close>

lemma simulate_raises:
  "simulate S sigma r days paths Z =
     (if days = 0 then Inl ZeroDivisionError
      else if days < 0 \<or> paths < 0 then Inl ValueError
      else Inr (1 / real_of_int days,
          map (\<lambda>i. spec_price S sigma r (1 / real_of_int days) (nat paths) Z i (nat days))
            [0..<nat paths],
          map (\<lambda>i. spec_sum S sigma r (1 / real_of_int days) (nat paths) Z i (nat days))
            [0..<nat paths],
          \<lambda>k. Z (k + nat days * nat paths)))"
proof -
  consider "days = 0" | "days < 0" | "0 < days" "paths < 0" | "0 < days" "0 \<le> paths"
    by linarith
  then show ?thesis
  proof cases
    case 1
    then show ?thesis by (simp add: simulate_def)
  next
    case 2
    then have "1 / real_of_int days < 0" by simp
    with 2 show ?thesis by (simp add: simulate_def Let_def)
  next
    case 3
    then have "\<not> 1 / real_of_int days < 0" by simp
    with 3 show ?thesis by (simp add: simulate_def Let_def)
  next
    case 4
    with simulate_closed [OF 4] show ?thesis by simp
  qed
qed




subsection \<open>The discount factor\<close>



subsection \<open>Zero volatility\<close>

lemma spec_price_sigma0: "spec_price S 0 r h p Z i n = S * exp (r * h * real n)"
proof (induction n)
  case 0
  show ?case by simp
next
  case (Suc n)
  have "exp (r * h * real n) * exp (r * h) = exp (r * h * real (Suc n))"
    by (simp add: exp_add [symmetric] algebra_simps)
  then show ?case by (simp add: Suc spec_growth_def mult.assoc)
qed

lemma spec_sum_eq:
  "spec_sum S sigma r h p Z i n = (\<Sum>k = 1..n. spec_price S sigma r h p Z i k)"
  by (induction n) simp_all

lemma payoff_mean_const: "0 < p \<Longrightarrow> payoff_mean c p (\<lambda>i. a) = c * a"
  by (simp add: payoff_mean_def sum_list_triv)

lemma price_options_sigma0:
  assumes "0 < days" "0 < paths"
  shows "price_options S K 0 r days paths Z =
     Inr (Fin (exp (- r) * max 0 (S * exp r - K)),
          Fin (exp (- r) * max 0 (K - S * exp r)),
          Fin (exp (- r) * max 0 ((\<Sum>k = 1..nat days. S * exp (r * (1 / real_of_int days) * real k))
                                    / real_of_int days - K)),
          Fin (exp (- r) * max 0 (K - (\<Sum>k = 1..nat days. S * exp (r * (1 / real_of_int days) * real k))
                                    / real_of_int days)))"
proof -
  have p: "0 < nat paths" using assms(2) by simp
  have rf: "r_factor r (1 / real_of_int days) days = exp (- r)"
    using assms(1) by (simp add: r_factor_def)
  have t: "r * (1 / real_of_int days) * real (nat days) = r"
    using assms(1) by simp
  show ?thesis
    unfolding price_options_closed [OF assms] spec_sum_eq spec_price_sigma0
      payoff_mean_const [OF p] rf t
    by (rule refl)
qed

text \<open>
  C8. With \<open>\<sigma> = 0\<close> and otherwise valid parameters the result does not depend on the
  draws: any two streams give the same tuple. The European call is
  \<open>exp(-r h days) max(0, S exp(r h days) - K)\<close> and the European put is
  \<open>exp(-r h days) max(0, K - S exp(r h days))\<close>, with \<open>h = 1/days\<close>.
\<close>

theorem zero_volatility_deterministic:
  assumes "valid S K 0 days paths"
  shows "price_options S K 0 r days paths Z1 = price_options S K 0 r days paths Z2 \<and>
    (\<exists>ac ap. price_options S K 0 r days paths Z1 =
       Inr (Fin (exp (- r * (1 / real_of_int days) * real_of_int days)
                  * max 0 (S * exp (r * (1 / real_of_int days) * real_of_int days) - K)),
            Fin (exp (- r * (1 / real_of_int days) * real_of_int days)
                  * max 0 (K - S * exp (r * (1 / real_of_int days) * real_of_int days))),
            ac, ap))"
proof -
  have d: "0 < days" "0 < paths" using assms by (simp_all add: valid_def)
  have t: "r * (1 / real_of_int days) * real_of_int days = r"
          "- r * (1 / real_of_int days) * real_of_int days = - r"
    using d(1) by simp_all
  show ?thesis
    unfolding t price_options_sigma0 [OF d] by simp
qed

theorem zero_volatility_deterministic_witness:
  "valid 100 90 0 1 1 \<and>
   price_options 100 90 0 0 1 1 (\<lambda>_. 3) = price_options 100 90 0 0 1 1 (\<lambda>_. - 2) \<and>
   price_options 100 90 0 0 1 1 (\<lambda>_. 3) = Inr (Fin 10, Fin 0, Fin 10, Fin 0)"
  using zero_volatility_deterministic [where S = 100 and K = 90 and days = 1 and paths = 1
      and r = 0 and ?Z1.0 = "\<lambda>_. 3" and ?Z2.0 = "\<lambda>_. - 2"]
  by (simp add: valid_def price_options_def simulate_def loop_body_def standard_normal_def
      ones_def zeros_def maximum_def mean_def r_factor_def Let_def)

subsection \<open>The Asian average\<close>

text \<open>
  C9. The average behind the Asian payoffs is, for every path, the sum of the path's
  prices after steps \<open>1\<close> to \<open>days\<close> divided by \<open>days\<close>; the price before the first step
  is not a term of it. With \<open>days = 1\<close> the Asian estimates equal the European ones.
\<close>

theorem asian_average_excludes_initial:
  assumes "valid S K sigma days paths"
  shows "\<exists>ec ep ac ap.
    price_options S K sigma r days paths Z = Inr (ec, ep, ac, ap) \<and>
    ac = Fin (payoff_mean (r_factor r (1 / real_of_int days) days) (nat paths)
           (\<lambda>i. max 0 ((\<Sum>k = 1..nat days.
                           spec_price S sigma r (1 / real_of_int days) (nat paths) Z i k)
                         / real_of_int days - K))) \<and>
    ap = Fin (payoff_mean (r_factor r (1 / real_of_int days) days) (nat paths)
           (\<lambda>i. max 0 (K - (\<Sum>k = 1..nat days.
                           spec_price S sigma r (1 / real_of_int days) (nat paths) Z i k)
                         / real_of_int days))) \<and>
    (days = 1 \<longrightarrow> ac = ec \<and> ap = ep)"
proof -
  have d: "0 < days" "0 < paths" using assms by (simp_all add: valid_def)
  show ?thesis
    unfolding price_options_closed [OF d] spec_sum_eq by simp
qed

theorem asian_average_excludes_initial_witness:
  "valid 100 90 0 1 1 \<and>
   price_options 100 90 0 0 1 1 (\<lambda>_. 0) = Inr (Fin 10, Fin 0, Fin 10, Fin 0)"
  using asian_average_excludes_initial [where S = 100 and K = 90 and sigma = 0 and days = 1
      and paths = 1 and r = 0 and Z = "\<lambda>_. 0"]
  by (simp add: valid_def price_options_def simulate_def loop_body_def standard_normal_def
      ones_def zeros_def maximum_def mean_def r_factor_def Let_def)

subsection \<open>Put-call parity\<close>





section \<open>Properties of the dispatch cells\<close>

subsection \<open>Submission\<close>

lemma upt_shift_Cons: "[a..<Suc (a + n)] = a # [Suc a..<Suc (a + n)]"
  by (simp del: upt_Suc add: upt_conv_Cons)

lemma upt_append_add: "[a..<a + n] @ [a + n..<a + n + m] = [a..<a + (n + m)]"
proof -
  have "[a..<(a + n) + m] = [a..<a + n] @ [a + n..<a + n + m]"
    by (rule upt_add_eq_append) simp
  then show ?thesis by (simp only: add.assoc)
qed

lemma submit_inner:
  "fold (\<lambda>sigma st.
             case st of (async_results, view) \<Rightarrow>
               (case apply_async (price, strike, sigma, rate, days, paths) view of
                  (ar, view') \<Rightarrow> (async_results @ [ar], view')))
           sigma_vals (ars, view) =
   (ars @ [length (submitted view)..<length (submitted view) + length sigma_vals],
    view\<lparr>submitted := submitted view
             @ map (\<lambda>sigma. (price, strike, sigma, rate, days, paths)) sigma_vals\<rparr>)"
proof (induction sigma_vals arbitrary: ars view)
  case Nil
  show ?case by simp
next
  case (Cons sigma sigma_vals)
  let ?f = "\<lambda>sigma st.
             case st of (async_results, view) \<Rightarrow>
               (case apply_async (price, strike, sigma, rate, days, paths) view of
                  (ar, view') \<Rightarrow> (async_results @ [ar], view'))"
  let ?view = "view\<lparr>submitted := submitted view @ [(price, strike, sigma, rate, days, paths)]\<rparr>"
  have step: "?f sigma (ars, view) = (ars @ [length (submitted view)], ?view)"
    by (simp add: apply_async_def)
  have "fold ?f (sigma # sigma_vals) (ars, view) = fold ?f sigma_vals (?f sigma (ars, view))"
    by simp
  also have "\<dots> = fold ?f sigma_vals (ars @ [length (submitted view)], ?view)"
    by (simp only: step)
  also have "\<dots> = ((ars @ [length (submitted view)])
          @ [length (submitted ?view)..<length (submitted ?view) + length sigma_vals],
        ?view\<lparr>submitted := submitted ?view
             @ map (\<lambda>sigma. (price, strike, sigma, rate, days, paths)) sigma_vals\<rparr>)"
    by (rule Cons)
  also have "\<dots> = (ars @ [length (submitted view)..<
                            length (submitted view) + length (sigma # sigma_vals)],
    view\<lparr>submitted := submitted view
             @ map (\<lambda>sigma. (price, strike, sigma, rate, days, paths)) (sigma # sigma_vals)\<rparr>)"
    by (simp add: upt_shift_Cons del: upt_Suc)
  finally show ?case .
qed

lemma submit_outer:
  "fold (\<lambda>strike. fold (\<lambda>sigma st.
             case st of (async_results, view) \<Rightarrow>
               (case apply_async (price, strike, sigma, rate, days, paths) view of
                  (ar, view') \<Rightarrow> (async_results @ [ar], view')))
           sigma_vals)
       strike_vals (ars, view) =
   (ars @ [length (submitted view)..<
             length (submitted view) + length strike_vals * length sigma_vals],
    view\<lparr>submitted := submitted view
             @ grid_tasks price rate days paths strike_vals sigma_vals\<rparr>)"
proof (induction strike_vals arbitrary: ars view)
  case Nil
  show ?case by (simp add: grid_tasks_def)
next
  case (Cons strike strike_vals)
  show ?case
    unfolding fold_simps o_apply submit_inner Cons
    by (simp add: grid_tasks_def upt_append_add del: upt_Suc)
qed

lemma submit_tasks_closed:
  "submit_tasks price rate days paths strike_vals sigma_vals new_view =
     ([0..<length strike_vals * length sigma_vals],
      \<lparr>submitted = grid_tasks price rate days paths strike_vals sigma_vals,
       finished = Map.empty\<rparr>)"
  by (simp add: submit_tasks_def submit_outer new_view_def)

lemma length_grid_tasks:
  "length (grid_tasks price rate days paths strike_vals sigma_vals)
     = length strike_vals * length sigma_vals"
  by (induction strike_vals) (simp_all add: grid_tasks_def)

lemma nth_grid_tasks:
  assumes "i < length strike_vals" "j < length sigma_vals"
  shows "grid_tasks price rate days paths strike_vals sigma_vals ! (i * length sigma_vals + j)
           = (price, strike_vals ! i, sigma_vals ! j, rate, days, paths)"
  using assms
proof (induction strike_vals arbitrary: i)
  case Nil
  then show ?case by simp
next
  case (Cons strike strike_vals)
  show ?case
  proof (cases i)
    case 0
    with Cons.prems show ?thesis by (simp add: grid_tasks_def nth_append)
  next
    case (Suc i')
    with Cons.prems have "i' < length strike_vals" by simp
    from Cons.IH [OF this Cons.prems(2)] Suc show ?thesis
      by (simp add: grid_tasks_def nth_append add.assoc)
  qed
qed


lemma submitted_complete: "submitted (complete ev view) = submitted view"
  by (cases ev) (simp add: complete_def)

lemma submitted_fold_complete: "submitted (fold complete schedule view) = submitted view"
  by (induction schedule arbitrary: view) (simp_all add: submitted_complete)

lemma finished_complete_other:
  "fst ev \<noteq> h \<Longrightarrow> finished (complete ev view) h = finished view h"
  by (cases ev) (simp add: complete_def)

lemma finished_complete_same:
  "h < length (submitted view) \<Longrightarrow>
     finished (complete (h, engine) view) h = Some (run_task (submitted view ! h) engine)"
  by (simp add: complete_def)

lemma finished_fold_complete_other:
  "h \<notin> fst ` set schedule \<Longrightarrow> finished (fold complete schedule view) h = finished view h"
  by (induction schedule arbitrary: view) (auto simp: finished_complete_other)

lemma finished_fold_complete:
  assumes "distinct (map fst schedule)" "(h, engine) \<in> set schedule"
    and "h < length (submitted view)"
  shows "finished (fold complete schedule view) h = Some (run_task (submitted view ! h) engine)"
  using assms
proof (induction schedule arbitrary: view)
  case Nil
  then show ?case by simp
next
  case (Cons ev schedule)
  show ?case
  proof (cases "ev = (h, engine)")
    case True
    with Cons.prems(1) have "h \<notin> fst ` set schedule" by auto
    then have "finished (fold complete schedule (complete ev view)) h
                 = finished (complete ev view) h"
      by (rule finished_fold_complete_other)
    with True Cons.prems(3) show ?thesis by (simp add: finished_complete_same)
  next
    case False
    with Cons.prems have in_rest: "(h, engine) \<in> set schedule"
      and d: "distinct (map fst schedule)" by auto
    have "h < length (submitted (complete ev view))"
      using Cons.prems(3) by (simp add: submitted_complete)
    from Cons.IH [OF d in_rest this] show ?thesis
      by (simp add: submitted_complete)
  qed
qed

lemma finished_complete_out_of_range:
  "length (submitted view) \<le> h \<Longrightarrow> finished (complete ev view) h = finished view h"
  by (cases ev) (simp add: complete_def)

lemma finished_fold_complete_out_of_range:
  "length (submitted view) \<le> h \<Longrightarrow> finished (fold complete schedule view) h = finished view h"
  by (induction schedule arbitrary: view)
    (simp_all add: finished_complete_out_of_range submitted_complete)

lemma fold_complete_order:
  assumes "distinct (map fst schedule)" "distinct (map fst schedule')"
    and "set schedule' = set schedule"
  shows "fold complete schedule' view = fold complete schedule view"
proof -
  have "finished (fold complete schedule' view) h = finished (fold complete schedule view) h"
    for h
  proof (cases "h \<in> fst ` set schedule")
    case False
    with assms(3) show ?thesis by (simp add: finished_fold_complete_other)
  next
    case True
    then obtain engine where ev: "(h, engine) \<in> set schedule" by force
    then have ev': "(h, engine) \<in> set schedule'" using assms(3) by simp
    show ?thesis
    proof (cases "h < length (submitted view)")
      case True
      from finished_fold_complete [OF assms(1) ev True]
        finished_fold_complete [OF assms(2) ev' True]
      show ?thesis by simp
    next
      case False
      then show ?thesis by (simp add: finished_fold_complete_out_of_range)
    qed
  qed
  then have "finished (fold complete schedule' view) = finished (fold complete schedule view)"
    by (rule ext)
  then show ?thesis
    by (intro executor.equality) (simp_all add: submitted_fold_complete)
qed

lemma run_grid_order:
  assumes "distinct (map fst schedule)" "distinct (map fst schedule')"
    and "set schedule' = set schedule"
  shows "run_grid price rate days paths n_strikes n_sigmas strike_vals sigma_vals schedule'
       = run_grid price rate days paths n_strikes n_sigmas strike_vals sigma_vals schedule"
  unfolding run_grid_def collect_def wait_def fold_complete_order [OF assms] by (rule refl)

lemma get_all_Inr:
  "get_all view ars = Some (Inr qs) \<Longrightarrow>
     length qs = length ars \<and> (\<forall>k<length ars. get view (ars ! k) = Some (Inr (qs ! k)))"
proof (induction ars arbitrary: qs)
  case Nil
  then show ?case by simp
next
  case (Cons ar ars)
  from Cons.prems obtain q qs' where q: "get view ar = Some (Inr q)"
    and r: "get_all view ars = Some (Inr qs')" and e: "qs = q # qs'"
    by (auto split: option.splits sum.splits)
  from Cons.IH [OF r] q e show ?case
    by (auto simp: nth_Cons split: nat.splits)
qed

lemma get_all_succeeds:
  "(\<forall>ar\<in>set ars. \<exists>q. get view ar = Some (Inr q)) \<Longrightarrow> \<exists>qs. get_all view ars = Some (Inr qs)"
  by (induction ars) auto

lemma get_all_raises:
  assumes "\<forall>ar\<in>set ars. get view ar \<noteq> None"
    and "\<exists>ar\<in>set ars. \<exists>e. get view ar = Some (Inl e)"
  shows "\<exists>ar\<in>set ars. \<exists>e. get view ar = Some (Inl e) \<and> get_all view ars = Some (Inl e)"
  using assms
proof (induction ars)
  case Nil
  then show ?case by simp
next
  case (Cons ar ars)
  from Cons.prems(1) obtain x where x: "get view ar = Some x" by auto
  show ?case
  proof (cases x)
    case (Inl e)
    with x show ?thesis by simp
  next
    case (Inr q)
    with x Cons.prems have a: "\<forall>ar\<in>set ars. get view ar \<noteq> None"
      and b: "\<exists>ar\<in>set ars. \<exists>e. get view ar = Some (Inl e)" by auto
    from Cons.IH [OF a b] obtain ar' e where "ar' \<in> set ars" "get view ar' = Some (Inl e)"
      "get_all view ars = Some (Inl e)" by blast
    with x Inr show ?thesis by auto
  qed
qed

lemma get_all_returns:
  "\<forall>ar\<in>set ars. get view ar \<noteq> None \<Longrightarrow> get_all view ars \<noteq> None"
  by (induction ars) (auto split: option.splits sum.splits)

lemma get_all_Inl:
  "get_all view ars = Some (Inl e) \<Longrightarrow> \<exists>ar\<in>set ars. get view ar = Some (Inl e)"
  by (induction ars) (auto split: option.splits sum.splits)

lemma assemble_from:
  "k + length results \<le> length prices \<Longrightarrow>
   fold (\<lambda>ip acc. case ip of (i, price) \<Rightarrow>
             (case acc of Inl e \<Rightarrow> Inl e | Inr prices' \<Rightarrow> setitem i price prices'))
       (enumerate k results) (Inr prices)
     = Inr (take k prices @ map Some results @ drop (k + length results) prices)"
proof (induction results arbitrary: k prices)
  case Nil
  then show ?case by simp
next
  case (Cons price results)
  have k: "k < length prices" using Cons.prems by simp
  have l: "Suc k + length results \<le> length (prices[k := Some price])" using Cons.prems by simp
  have t: "take (Suc k) (prices[k := Some price]) = take k prices @ [Some price]"
    using k by (simp add: take_Suc_conv_app_nth)
  show ?case
    using k by (simp add: setitem_def Cons.IH [OF l] t)
qed

lemma assemble_full:
  "length results = length prices \<Longrightarrow> assemble prices results = Inr (map Some results)"
  using assemble_from [of 0 results prices] by (simp add: assemble_def)


lemma price_options_returns:
  "0 < days \<Longrightarrow> 0 \<le> paths \<Longrightarrow> \<exists>q. price_options S K sigma r days paths Z = Inr q"
  unfolding price_options_def simulate_raises by (simp add: Let_def)

lemma grid_index:
  fixes n :: nat
  assumes "i < m" "j < n"
  shows "i * n + j < m * n"
proof -
  have "i * n + j < i * n + n" using assms(2) by simp
  also have "\<dots> = Suc i * n" by simp
  also have "\<dots> \<le> m * n" using assms(1) by (intro mult_le_mono1) simp
  finally show ?thesis .
qed

lemma grid_cell_finished:
  assumes sch: "distinct (map fst schedule)"
      "fst ` set schedule = {..<length strike_vals * length sigma_vals}"
    and ok: "\<forall>ev\<in>set schedule. \<not> isl (snd ev)"
    and dp: "0 < days" "0 \<le> paths"
    and ij: "i < length strike_vals" "j < length sigma_vals"
  shows "\<exists>g q. (i * length sigma_vals + j, Inr g) \<in> set schedule \<and>
     price_options price (strike_vals ! i) (sigma_vals ! j) rate days paths g = Inr q \<and>
     finished (fold complete schedule
        \<lparr>submitted = grid_tasks price rate days paths strike_vals sigma_vals,
         finished = Map.empty\<rparr>) (i * length sigma_vals + j) = Some (Inr q)"
proof -
  let ?h = "i * length sigma_vals + j"
  let ?view = "\<lparr>submitted = grid_tasks price rate days paths strike_vals sigma_vals,
         finished = Map.empty\<rparr>"
  have h: "?h < length strike_vals * length sigma_vals" using ij by (rule grid_index)
  with sch(2) have "?h \<in> fst ` set schedule" by simp
  then obtain engine where ev: "(?h, engine) \<in> set schedule" by force
  with ok have "\<not> isl engine" by force
  then obtain g where g: "engine = Inr g" by (cases engine) simp_all
  from price_options_returns [OF dp] obtain q
    where q: "price_options price (strike_vals ! i) (sigma_vals ! j) rate days paths g = Inr q"
    by blast
  have "?h < length (submitted ?view)" using h by (simp add: length_grid_tasks)
  from finished_fold_complete [OF sch(1) ev this]
  have "finished (fold complete schedule ?view) ?h = Some (Inr q)"
    using q g by (simp add: nth_grid_tasks [OF ij] run_task_def)
  with ev g q show ?thesis by blast
qed

lemma handle_cell:
  fixes n :: nat
  assumes "h < m * n"
  shows "\<exists>i j. i < m \<and> j < n \<and> h = i * n + j"
proof -
  have n: "0 < n" using assms by (cases n) simp_all
  have "h div n < m" using assms n by (simp add: less_mult_imp_div_less)
  moreover have "h mod n < n" using n by simp
  moreover have "h = (h div n) * n + h mod n" by simp
  ultimately show ?thesis by blast
qed

text \<open>
  C2. For strike and volatility sequences of lengths \<open>m\<close> and \<open>n\<close> (with \<open>n_strikes\<close>
  and \<open>n_sigmas\<close> their lengths, as \<open>np.linspace\<close> makes them), fixed parameters on
  which \<open>price_options\<close> does not raise, and no engine failure, the cells submit one task
  per pair, strike by strike and volatility by volatility within a strike, with handles
  \<open>0, ..., m n - 1\<close> in that order. For every schedule in which each of these tasks
  completes once, in whatever order, the run returns an array of shape \<open>(m, n)\<close> with
  \<open>m n\<close> cells; the assembly loop assigns the indices \<open>0, ..., m n - 1\<close>, each once; and
  cell \<open>(i, j)\<close> holds the tuple that \<open>price_options\<close> returned for
  \<open>(strike_vals[i], sigma_vals[j])\<close> on the engine that ran that task. Completing the
  same tasks on the same engines in another order gives the same array.
\<close>

theorem run_grid_populates_grid:
  assumes n: "n_strikes = int (length strike_vals)" "n_sigmas = int (length sigma_vals)"
    and dp: "0 < days" "0 \<le> paths"
    and sch: "distinct (map fst schedule)"
      "fst ` set schedule = {..<length strike_vals * length sigma_vals}"
    and ok: "\<forall>ev\<in>set schedule. \<not> isl (snd ev)"
  shows "submit_tasks price rate days paths strike_vals sigma_vals new_view =
       ([0..<length strike_vals * length sigma_vals],
        \<lparr>submitted = grid_tasks price rate days paths strike_vals sigma_vals,
         finished = Map.empty\<rparr>) \<and>
    (\<exists>results grid.
       collect price rate days paths strike_vals sigma_vals schedule = Some (Inr results) \<and>
       map fst (enumerate 0 results) = [0..<length strike_vals * length sigma_vals] \<and>
       run_grid price rate days paths n_strikes n_sigmas strike_vals sigma_vals schedule
         = Some (Inr grid) \<and>
       shape grid = (length strike_vals, length sigma_vals) \<and>
       length (flat grid) = length strike_vals * length sigma_vals \<and>
       (\<forall>i<length strike_vals. \<forall>j<length sigma_vals. \<exists>g q.
          (i * length sigma_vals + j, Inr g) \<in> set schedule \<and>
          price_options price (strike_vals ! i) (sigma_vals ! j) rate days paths g = Inr q \<and>
          item grid i j = Inr (Some q))) \<and>
    (\<forall>schedule'. distinct (map fst schedule') \<and> set schedule' = set schedule \<longrightarrow>
       run_grid price rate days paths n_strikes n_sigmas strike_vals sigma_vals schedule'
         = run_grid price rate days paths n_strikes n_sigmas strike_vals sigma_vals schedule)"
proof -
  let ?N = "length strike_vals * length sigma_vals"
  let ?view = "\<lparr>submitted = grid_tasks price rate days paths strike_vals sigma_vals,
         finished = Map.empty\<rparr>"
  let ?view' = "fold complete schedule ?view"
  have order: "\<forall>schedule'. distinct (map fst schedule') \<and> set schedule' = set schedule \<longrightarrow>
       run_grid price rate days paths n_strikes n_sigmas strike_vals sigma_vals schedule'
         = run_grid price rate days paths n_strikes n_sigmas strike_vals sigma_vals schedule"
    using run_grid_order [OF sch(1)] by blast
  note cell = grid_cell_finished [OF sch ok dp, where price = price and rate = rate]
  have fin: "\<exists>q. finished ?view' h = Some (Inr q)" if "h < ?N" for h
  proof -
    from handle_cell [OF that] obtain i j where ij: "i < length strike_vals"
      "j < length sigma_vals" and h: "h = i * length sigma_vals + j" by blast
    from cell [OF ij] h show ?thesis by blast
  qed
  have "list_all (\<lambda>h. finished ?view' h \<noteq> None) [0..<?N]"
    using fin by (fastforce simp: list_all_iff)
  then have w: "wait schedule [0..<?N] ?view = Some ?view'"
    by (simp add: wait_def Let_def)
  have "\<forall>ar\<in>set [0..<?N]. \<exists>q. get ?view' ar = Some (Inr q)"
    using fin by (fastforce simp: get_def)
  from get_all_succeeds [OF this] obtain results
    where r: "get_all ?view' [0..<?N] = Some (Inr results)" by blast
  from get_all_Inr [OF r] have len: "length results = ?N"
    and res: "\<And>k. k < ?N \<Longrightarrow> get ?view' k = Some (Inr (results ! k))" by simp_all
  have c: "collect price rate days paths strike_vals sigma_vals schedule = Some (Inr results)"
    by (simp add: collect_def submit_tasks_closed w r)
  have nn: "\<not> int (length strike_vals) * int (length sigma_vals) < 0"
    by (simp add: not_less)
  have e: "empty (n_strikes * n_sigmas) = Inr (replicate ?N None)"
    using nn by (simp add: empty_def n nat_mult_distrib)
  have a: "assemble (replicate ?N None) results = Inr (map Some results)"
    by (rule assemble_full) (simp add: len)
  let ?grid = "\<lparr>shape = (length strike_vals, length sigma_vals), flat = map Some results\<rparr>"
  have s: "set_shape (map Some results) n_strikes n_sigmas = Inr ?grid"
    by (simp add: set_shape_def n len)
  have rg: "run_grid price rate days paths n_strikes n_sigmas strike_vals sigma_vals schedule
              = Some (Inr ?grid)"
    by (simp add: run_grid_def c e a s)
  have en: "map fst (enumerate 0 results) = [0..<?N]"
    by (simp add: len)
  have cells: "\<forall>i<length strike_vals. \<forall>j<length sigma_vals. \<exists>g q.
          (i * length sigma_vals + j, Inr g) \<in> set schedule \<and>
          price_options price (strike_vals ! i) (sigma_vals ! j) rate days paths g = Inr q \<and>
          item ?grid i j = Inr (Some q)"
  proof (intro allI impI)
    fix i j
    assume ij: "i < length strike_vals" "j < length sigma_vals"
    have h: "i * length sigma_vals + j < ?N" using ij by (rule grid_index)
    from cell [OF ij] obtain g q where g: "(i * length sigma_vals + j, Inr g) \<in> set schedule"
      and q: "price_options price (strike_vals ! i) (sigma_vals ! j) rate days paths g = Inr q"
      and f: "finished ?view' (i * length sigma_vals + j) = Some (Inr q)" by blast
    from f have "get ?view' (i * length sigma_vals + j) = Some (Inr q)" by (simp add: get_def)
    with res [OF h] have "results ! (i * length sigma_vals + j) = q" by simp
    then have "item ?grid i j = Inr (Some q)"
      using ij h by (simp add: item_def len)
    with g q show "\<exists>g q. (i * length sigma_vals + j, Inr g) \<in> set schedule \<and>
          price_options price (strike_vals ! i) (sigma_vals ! j) rate days paths g = Inr q \<and>
          item ?grid i j = Inr (Some q)" by blast
  qed
  have "shape ?grid = (length strike_vals, length sigma_vals)"
       "length (flat ?grid) = ?N" by (simp_all add: len)
  with c en rg cells have "\<exists>results grid.
       collect price rate days paths strike_vals sigma_vals schedule = Some (Inr results) \<and>
       map fst (enumerate 0 results) = [0..<?N] \<and>
       run_grid price rate days paths n_strikes n_sigmas strike_vals sigma_vals schedule
         = Some (Inr grid) \<and>
       shape grid = (length strike_vals, length sigma_vals) \<and>
       length (flat grid) = ?N \<and>
       (\<forall>i<length strike_vals. \<forall>j<length sigma_vals. \<exists>g q.
          (i * length sigma_vals + j, Inr g) \<in> set schedule \<and>
          price_options price (strike_vals ! i) (sigma_vals ! j) rate days paths g = Inr q \<and>
          item grid i j = Inr (Some q))"
    by blast
  with order submit_tasks_closed [of price rate days paths strike_vals sigma_vals]
  show ?thesis by (intro conjI)
qed

lemma example_reverse_order: "run_grid 100 0 1 1 2 1 [90, 110] [0] [(1, Inr (\<lambda>_. 0)), (0, Inr (\<lambda>_. 0))] =
     Some (Inr \<lparr>shape = (2, 1),
                flat = [Some (Fin 10, Fin 0, Fin 10, Fin 0), Some (Fin 0, Fin 10, Fin 0, Fin 10)]\<rparr>)"
    by (simp add: run_grid_def collect_def submit_tasks_def apply_async_def new_view_def wait_def
      complete_def run_task_def get_def empty_def assemble_def setitem_def set_shape_def
      enumerate_eq_zip price_options_def simulate_def loop_body_def standard_normal_def
      ones_def zeros_def maximum_def mean_def r_factor_def Let_def numeral_2_eq_2)

theorem run_grid_populates_grid_witness:
  "2 = int (length [90, 110 :: real]) \<and> 1 = int (length [0 :: real]) \<and>
   distinct (map fst [(1 :: nat, Inr (\<lambda>_. 0) :: error + rng), (0, Inr (\<lambda>_. 0))]) \<and>
   fst ` set [(1 :: nat, Inr (\<lambda>_. 0) :: error + rng), (0, Inr (\<lambda>_. 0))]
     = {..<length [90, 110 :: real] * length [0 :: real]} \<and>
   (\<exists>grid. run_grid 100 0 1 1 2 1 [90, 110] [0] [(1, Inr (\<lambda>_. 0)), (0, Inr (\<lambda>_. 0))]
      = Some (Inr grid)) \<and>
   run_grid 100 0 1 1 2 1 [90, 110] [0] [(1, Inr (\<lambda>_. 0)), (0, Inr (\<lambda>_. 0))] =
     Some (Inr \<lparr>shape = (2, 1),
                flat = [Some (Fin 10, Fin 0, Fin 10, Fin 0), Some (Fin 0, Fin 10, Fin 0, Fin 10)]\<rparr>)"
proof -
  have n: "2 = int (length [90, 110 :: real])" "1 = int (length [0 :: real])" by simp_all
  have dp: "(0::int) < 1" "(0::int) \<le> 1" by simp_all
  have d: "distinct (map fst [(1 :: nat, Inr (\<lambda>_. 0) :: error + rng), (0, Inr (\<lambda>_. 0))])"
    by simp
  have c: "fst ` set [(1 :: nat, Inr (\<lambda>_. 0) :: error + rng), (0, Inr (\<lambda>_. 0))]
             = {..<length [90, 110 :: real] * length [0 :: real]}"
    by auto
  have ok: "\<forall>ev\<in>set [(1 :: nat, Inr (\<lambda>_. 0) :: error + rng), (0, Inr (\<lambda>_. 0))]. \<not> isl (snd ev)"
    by simp
  note t = run_grid_populates_grid [OF n dp d c ok, of 100 0]
  from t [THEN conjunct2, THEN conjunct1]
  have r: "\<exists>grid. run_grid 100 0 1 1 2 1 [90, 110] [0] [(1, Inr (\<lambda>_. 0)), (0, Inr (\<lambda>_. 0))]
      = Some (Inr grid)"
    by (elim exE conjE) (rule exI)
  from n d c r example_reverse_order show ?thesis by (intro conjI)
qed

subsection \<open>Failure of a task\<close>

lemma run_grid_of_results:
  assumes n: "n_strikes = int (length strike_vals)" "n_sigmas = int (length sigma_vals)"
    and c: "collect price rate days paths strike_vals sigma_vals schedule = Some (Inr results)"
    and len: "length results = length strike_vals * length sigma_vals"
  shows "run_grid price rate days paths n_strikes n_sigmas strike_vals sigma_vals schedule
           = Some (Inr \<lparr>shape = (length strike_vals, length sigma_vals),
                        flat = map Some results\<rparr>)"
proof -
  let ?N = "length strike_vals * length sigma_vals"
  have nn: "\<not> int (length strike_vals) * int (length sigma_vals) < 0"
    by (simp add: not_less)
  have e: "empty (n_strikes * n_sigmas) = Inr (replicate ?N None)"
    using nn by (simp add: empty_def n nat_mult_distrib)
  have a: "assemble (replicate ?N None) results = Inr (map Some results)"
    by (rule assemble_full) (simp add: len)
  have s: "set_shape (map Some results) n_strikes n_sigmas
             = Inr \<lparr>shape = (length strike_vals, length sigma_vals), flat = map Some results\<rparr>"
    by (simp add: set_shape_def n len)
  show ?thesis by (simp add: run_grid_def c e a s)
qed

text \<open>
  C3. Once the barrier has returned, if the \<open>get\<close> of any handle raises, the run ends
  with an exception that one of the handles raised and returns no array; nothing is
  submitted a second time. If the run returns an array, the \<open>get\<close> of every handle
  returned a tuple and every cell holds the tuple of its handle. The run does one or
  the other.
\<close>

theorem run_grid_propagates_failure:
  assumes n: "n_strikes = int (length strike_vals)" "n_sigmas = int (length sigma_vals)"
    and st: "submit_tasks price rate days paths strike_vals sigma_vals new_view
               = (async_results, view0)"
    and w: "wait schedule async_results view0 = Some view"
  shows "length async_results = length strike_vals * length sigma_vals \<and>
    length (submitted view) = length strike_vals * length sigma_vals \<and>
    ((\<exists>ar\<in>set async_results. \<exists>e. get view ar = Some (Inl e)) \<longrightarrow>
       (\<exists>ar\<in>set async_results. \<exists>e. get view ar = Some (Inl e) \<and>
          run_grid price rate days paths n_strikes n_sigmas strike_vals sigma_vals schedule
            = Some (Inl e))) \<and>
    (\<forall>grid. run_grid price rate days paths n_strikes n_sigmas strike_vals sigma_vals schedule
              = Some (Inr grid) \<longrightarrow>
       length (flat grid) = length strike_vals * length sigma_vals \<and>
       (\<forall>k<length strike_vals * length sigma_vals.
          \<exists>q. get view (async_results ! k) = Some (Inr q) \<and> flat grid ! k = Some q)) \<and>
    ((\<exists>e. run_grid price rate days paths n_strikes n_sigmas strike_vals sigma_vals schedule
            = Some (Inl e)) \<or>
     (\<exists>grid. run_grid price rate days paths n_strikes n_sigmas strike_vals sigma_vals schedule
            = Some (Inr grid)))"
proof -
  let ?N = "length strike_vals * length sigma_vals"
  let ?run = "run_grid price rate days paths n_strikes n_sigmas strike_vals sigma_vals schedule"
  from st have ars: "async_results = [0..<?N]"
    and v0: "view0 = \<lparr>submitted = grid_tasks price rate days paths strike_vals sigma_vals,
                       finished = Map.empty\<rparr>"
    by (simp_all add: submit_tasks_closed)
  have la: "length async_results = ?N" by (simp add: ars)
  from w have v: "view = fold complete schedule view0"
    and fin: "list_all (\<lambda>h. finished view h \<noteq> None) async_results"
    by (auto simp: wait_def Let_def split: if_splits)
  have ls: "length (submitted view) = ?N"
    by (simp add: v submitted_fold_complete v0 length_grid_tasks)
  have some: "\<forall>ar\<in>set async_results. get view ar \<noteq> None"
    using fin by (auto simp: list_all_iff get_def split: option.splits sum.splits)
  have c: "collect price rate days paths strike_vals sigma_vals schedule
             = get_all view async_results"
    by (simp add: collect_def st w)
  have raise: "?run = Some (Inl e)" if "get_all view async_results = Some (Inl e)" for e
    using that by (simp add: run_grid_def c)
  have ret: "?run = Some (Inr \<lparr>shape = (length strike_vals, length sigma_vals),
                               flat = map Some results\<rparr>)"
    if "get_all view async_results = Some (Inr results)" for results
  proof -
    from get_all_Inr [OF that] have "length results = ?N" by (simp add: la)
    with that show ?thesis by (intro run_grid_of_results n) (simp_all add: c)
  qed
  have p1: "(\<exists>ar\<in>set async_results. \<exists>e. get view ar = Some (Inl e)) \<longrightarrow>
       (\<exists>ar\<in>set async_results. \<exists>e. get view ar = Some (Inl e) \<and> ?run = Some (Inl e))"
  proof
    assume "\<exists>ar\<in>set async_results. \<exists>e. get view ar = Some (Inl e)"
    from get_all_raises [OF some this] raise
    show "\<exists>ar\<in>set async_results. \<exists>e. get view ar = Some (Inl e) \<and> ?run = Some (Inl e)"
      by blast
  qed
  from get_all_returns [OF some] obtain x where x: "get_all view async_results = Some x"
    by blast
  have p2: "\<forall>grid. ?run = Some (Inr grid) \<longrightarrow>
       length (flat grid) = ?N \<and>
       (\<forall>k<?N. \<exists>q. get view (async_results ! k) = Some (Inr q) \<and> flat grid ! k = Some q)"
  proof (intro allI impI)
    fix grid
    assume g: "?run = Some (Inr grid)"
    show "length (flat grid) = ?N \<and>
       (\<forall>k<?N. \<exists>q. get view (async_results ! k) = Some (Inr q) \<and> flat grid ! k = Some q)"
    proof (cases x)
      case (Inl e)
      with x raise g show ?thesis by simp
    next
      case (Inr results)
      with x have r: "get_all view async_results = Some (Inr results)" by simp
      from get_all_Inr [OF r] have len: "length results = ?N"
        and res: "\<forall>k<?N. get view (async_results ! k) = Some (Inr (results ! k))"
        by (simp_all add: la)
      from ret [OF r] g have grid: "grid = \<lparr>shape = (length strike_vals, length sigma_vals),
                               flat = map Some results\<rparr>" by simp
      have "\<exists>q. get view (async_results ! k) = Some (Inr q) \<and> flat grid ! k = Some q"
        if "k < ?N" for k
      proof -
        have "flat grid ! k = Some (results ! k)" using that len by (simp only: grid) simp
        with res that show ?thesis by blast
      qed
      moreover have "length (flat grid) = ?N" using len by (simp only: grid) simp
      ultimately show ?thesis by blast
    qed
  qed
  have p3: "(\<exists>e. ?run = Some (Inl e)) \<or> (\<exists>grid. ?run = Some (Inr grid))"
  proof (cases x)
    case (Inl e)
    with x raise show ?thesis by blast
  next
    case (Inr results)
    with x ret show ?thesis by blast
  qed
  from la ls p1 p2 p3 show ?thesis by blast
qed

lemma example_submit: "submit_tasks 100 0 1 1 [90, 110] [0] new_view
     = ([0, 1], \<lparr>submitted = [(100, 90, 0, 0, 1, 1), (100, 110, 0, 0, 1, 1)],
                 finished = Map.empty\<rparr>)"
    by (simp add: submit_tasks_def apply_async_def new_view_def)

lemma example_wait: "wait [(1, Inl EngineError), (0, Inr (\<lambda>_. 0))] [0, 1]
       \<lparr>submitted = [(100, 90, 0, 0, 1, 1), (100, 110, 0, 0, 1, 1)], finished = Map.empty\<rparr>
     = Some \<lparr>submitted = [(100, 90, 0, 0, 1, 1), (100, 110, 0, 0, 1, 1)],
             finished = [1 \<mapsto> Inl EngineError, 0 \<mapsto> Inr (Fin 10, Fin 0, Fin 10, Fin 0)]\<rparr>"
    by (simp add: wait_def complete_def run_task_def
      price_options_def simulate_def loop_body_def standard_normal_def
      ones_def zeros_def maximum_def mean_def r_factor_def Let_def)

lemma example_get: "get \<lparr>submitted = [(100, 90, 0, 0, 1, 1), (100, 110, 0, 0, 1, 1)],
        finished = [1 \<mapsto> Inl EngineError, 0 \<mapsto> Inr (Fin 10, Fin 0, Fin 10, Fin 0)]\<rparr> 1
     = Some (Inl (RemoteError EngineError))"
    by (simp add: get_def)

theorem run_grid_propagates_failure_witness:
  "submit_tasks 100 0 1 1 [90, 110] [0] new_view
     = ([0, 1], \<lparr>submitted = [(100, 90, 0, 0, 1, 1), (100, 110, 0, 0, 1, 1)],
                 finished = Map.empty\<rparr>) \<and>
   wait [(1, Inl EngineError), (0, Inr (\<lambda>_. 0))] [0, 1]
       \<lparr>submitted = [(100, 90, 0, 0, 1, 1), (100, 110, 0, 0, 1, 1)], finished = Map.empty\<rparr>
     = Some \<lparr>submitted = [(100, 90, 0, 0, 1, 1), (100, 110, 0, 0, 1, 1)],
             finished = [1 \<mapsto> Inl EngineError, 0 \<mapsto> Inr (Fin 10, Fin 0, Fin 10, Fin 0)]\<rparr> \<and>
   get \<lparr>submitted = [(100, 90, 0, 0, 1, 1), (100, 110, 0, 0, 1, 1)],
        finished = [1 \<mapsto> Inl EngineError, 0 \<mapsto> Inr (Fin 10, Fin 0, Fin 10, Fin 0)]\<rparr> 1
     = Some (Inl (RemoteError EngineError)) \<and>
   (\<exists>e. run_grid 100 0 1 1 2 1 [90, 110] [0] [(1, Inl EngineError), (0, Inr (\<lambda>_. 0))]
     = Some (Inl e)) \<and>
   run_grid 100 0 1 1 2 1 [90, 110] [0] [(1, Inl EngineError), (0, Inr (\<lambda>_. 0))]
     = Some (Inl (RemoteError EngineError))"
proof -
  let ?view = "\<lparr>submitted = [(100, 90, 0, 0, 1, 1), (100, 110, 0, 0, 1, 1)],
        finished = [1 \<mapsto> Inl EngineError, 0 \<mapsto> Inr (Fin 10, Fin 0, Fin 10, Fin 0)]\<rparr>"
  let ?run = "run_grid 100 0 1 1 2 1 [90, 110] [0] [(1, Inl EngineError), (0, Inr (\<lambda>_. 0))]"
  have n: "2 = int (length [90, 110 :: real])" "1 = int (length [0 :: real])" by simp_all
  note t = run_grid_propagates_failure [OF n example_submit example_wait]
  have "\<exists>ar\<in>set [0 :: nat, 1]. \<exists>e. get ?view ar = Some (Inl e)"
    using example_get by (intro bexI [of _ 1] exI) simp_all
  with t [THEN conjunct2, THEN conjunct2, THEN conjunct1]
  have "\<exists>ar\<in>set [0 :: nat, 1]. \<exists>e. get ?view ar = Some (Inl e) \<and> ?run = Some (Inl e)"
    by (rule mp)
  then have f: "\<exists>e. ?run = Some (Inl e)" by blast
  have ev: "?run = Some (Inl (RemoteError EngineError))"
    unfolding run_grid_def collect_def example_submit prod.case example_wait option.case
    by (simp add: get_def)
  from example_submit example_wait example_get f ev show ?thesis by (intro conjI)
qed

end
